theory Spec2Isabelle
  imports Main
begin

section \<open>JavaScript values\<close>

text \<open>
  The values that reach the library from its callers. Functions and objects are
  compared by reference, so they carry an identity. Numbers are the integers plus
  \<open>NaN\<close>; the two signed zeros are one value here, as they are for \<open>===\<close>
  and for \<open>JSON.stringify\<close>. \<open>JWrapper\<close> names a closure that
  \<open>putEvents\<close> builds; its argument is the address of the event entry
  the closure was built for.
\<close>

datatype jsval =
    JUndefined
  | JNull
  | JBool bool
  | JNum int
  | JNaN
  | JStr string
  | JObj nat
  | JFun nat
  | JWrapper nat

datatype error = TypeError

text \<open>ToBoolean.\<close>

fun truthy :: "jsval \<Rightarrow> bool" where
  "truthy JUndefined = False"
| "truthy JNull = False"
| "truthy (JBool b) = b"
| "truthy (JNum n) = (n \<noteq> 0)"
| "truthy JNaN = False"
| "truthy (JStr s) = (s \<noteq> [])"
| "truthy (JObj _) = True"
| "truthy (JFun _) = True"
| "truthy (JWrapper _) = True"

text \<open>The unary \<open>!\<close>: always a boolean.\<close>

definition js_not :: "jsval \<Rightarrow> jsval" where
  "js_not v = JBool (\<not> truthy v)"

text \<open>\<open>v instanceof Function\<close>: false for every primitive.\<close>

fun instanceof_Function :: "jsval \<Rightarrow> bool" where
  "instanceof_Function (JFun _) = True"
| "instanceof_Function (JWrapper _) = True"
| "instanceof_Function _ = False"

text \<open>Whether a call \<open>v(...)\<close> is possible.\<close>

definition callable :: "jsval \<Rightarrow> bool" where
  "callable v = instanceof_Function v"

text \<open>\<open>a === b\<close>. \<open>NaN\<close> is the one value that differs from itself.\<close>

fun strict_eq :: "jsval \<Rightarrow> jsval \<Rightarrow> bool" where
  "strict_eq JNaN _ = False"
| "strict_eq _ JNaN = False"
| "strict_eq a b = (a = b)"

section \<open>EffectHandler\<close>

text \<open>
  The closure variables \<open>al\<close> (an object used as a dictionary from a key to an
  array of actions) and \<open>globals\<close> (an array). The field \<open>al\<close> holds the own
  properties of the object, which are arrays, since \<open>al[key] = []\<close> is the only
  assignment to it.
\<close>

record effectHandler =
  al :: "string \<rightharpoonup> jsval list"
  globals :: "jsval list"

definition EffectHandler :: effectHandler where
  "EffectHandler = \<lparr>al = Map.empty, globals = []\<rparr>"

text \<open>
  \<open>al\<close> is made by \<open>{}\<close>, so a read \<open>al[key]\<close> of a key it does not own goes on
  to \<open>Object.prototype\<close>. These are the string keys found there. Every one of them
  reads as a function, except \<open>__proto__\<close>, which reads as \<open>Object.prototype\<close>
  itself: a truthy value without \<open>push\<close>, \<open>indexOf\<close> or \<open>forEach\<close>.
\<close>

definition Object_prototype_names :: "string list" where
  "Object_prototype_names =
     [''constructor'', ''__defineGetter__'', ''__defineSetter__'', ''hasOwnProperty'',
      ''__lookupGetter__'', ''__lookupSetter__'', ''isPrototypeOf'', ''propertyIsEnumerable'',
      ''toString'', ''valueOf'', ''__proto__'', ''toLocaleString'']"

text \<open>What \<open>al[key]\<close> reads: an array of its own, an inherited member, or \<open>undefined\<close>.\<close>

datatype al_value = Listeners "jsval list" | Inherited | Missing

definition al_get :: "effectHandler \<Rightarrow> string \<Rightarrow> al_value" where
  "al_get e key =
     (case al e key of
        Some l \<Rightarrow> Listeners l
      | None \<Rightarrow> if key \<in> set Object_prototype_names then Inherited else Missing)"

text \<open>
  \<open>add(key, action)\<close>. In \<open>if (!action instanceof Function) throw TypeError(...)\<close>
  the unary \<open>!\<close> binds tighter than \<open>instanceof\<close>, so the tested value is
  \<open>!action\<close>. \<open>al[key].push(action)\<close> on an inherited member raises \<open>TypeError\<close>.
\<close>

definition add :: "effectHandler \<Rightarrow> string \<Rightarrow> jsval \<Rightarrow> error + effectHandler" where
  "add e key action =
     (if instanceof_Function (js_not action) then Inl TypeError
      else
        let e1 = (if al_get e key = Missing then e\<lparr>al := (al e)(key \<mapsto> [])\<rparr> else e)
        in (case al_get e1 key of
              Listeners l \<Rightarrow> Inr (e1\<lparr>al := (al e1)(key \<mapsto> l @ [action])\<rparr>)
            | Inherited \<Rightarrow> Inl TypeError
            | Missing \<Rightarrow> Inl TypeError))"

definition addGlobal :: "effectHandler \<Rightarrow> jsval \<Rightarrow> error + effectHandler" where
  "addGlobal e action =
     (if instanceof_Function (js_not action) then Inl TypeError
      else Inr (e\<lparr>globals := globals e @ [action]\<rparr>))"

text \<open>\<open>Array.prototype.indexOf\<close>: the first index whose element is \<open>===\<close> the value.\<close>

fun indexOf :: "jsval list \<Rightarrow> jsval \<Rightarrow> nat option" where
  "indexOf [] a = None"
| "indexOf (x # xs) a =
     (if strict_eq x a then Some 0
      else (case indexOf xs a of None \<Rightarrow> None | Some i \<Rightarrow> Some (Suc i)))"

text \<open>\<open>xs.splice(i, 1)\<close>, the array that is left.\<close>

definition splice1 :: "'a list \<Rightarrow> nat \<Rightarrow> 'a list" where
  "splice1 xs i = take i xs @ drop (Suc i) xs"

text \<open>
  How a call of \<open>remove\<close> ends: it returns a boolean and leaves a handler, or it
  raises. \<open>PrototypeReplaced\<close> is the end of \<open>remove("__proto__")\<close> on a handler
  that owns no such key: the assignment \<open>al[key] = []\<close> then makes a new empty
  array the prototype of \<open>al\<close> and \<open>true\<close> is returned. A handler in that condition
  is not described here.
\<close>

datatype remove_result =
    Returns effectHandler bool
  | Raises error
  | PrototypeReplaced

text \<open>
  \<open>remove(key, action = false)\<close>. An omitted action is the default
  \<open>JBool False\<close>. \<open>al[key].indexOf(action)\<close> on an inherited member raises
  \<open>TypeError\<close>.
\<close>

definition remove :: "effectHandler \<Rightarrow> string \<Rightarrow> jsval \<Rightarrow> remove_result" where
  "remove e key action =
     (case al_get e key of
        Missing \<Rightarrow> Returns e False
      | Inherited \<Rightarrow>
          if \<not> truthy action
          then (if key = ''__proto__'' then PrototypeReplaced
                else Returns (e\<lparr>al := (al e)(key \<mapsto> [])\<rparr>) True)
          else Raises TypeError
      | Listeners l \<Rightarrow>
          if \<not> truthy action then Returns (e\<lparr>al := (al e)(key \<mapsto> [])\<rparr>) True
          else (case indexOf l action of
                  Some i \<Rightarrow> Returns (e\<lparr>al := (al e)(key \<mapsto> splice1 l i)\<rparr>) True
                | None \<Rightarrow> Returns e False))"

definition removeGlobal :: "effectHandler \<Rightarrow> jsval \<Rightarrow> effectHandler \<times> bool" where
  "removeGlobal e action =
     (if \<not> truthy action then (e\<lparr>globals := []\<rparr>, globals e \<noteq> [])
      else (case indexOf (globals e) action of
              Some i \<Rightarrow> (e\<lparr>globals := splice1 (globals e) i\<rparr>, True)
            | None \<Rightarrow> (e, False)))"

text \<open>
  Listeners are opaque: a call of a function is recorded with its arguments and
  returns. A call of a value that is not a function raises \<open>TypeError\<close> and ends
  the \<open>forEach\<close>.
\<close>

datatype 'a invocation = Invoke jsval "'a list"




section \<open>The state store\<close>

type_synonym store = "string \<rightharpoonup> jsval"

text \<open>\<open>_state(state)\<close> copies the own properties of its argument.\<close>

definition state_init :: "store \<Rightarrow> store" where
  "state_init state = state"




section \<open>The render tree\<close>

text \<open>
  A DOM node as the reconciler reads it: an identity (two references are the same
  object exactly when the identities agree), and for an element its tag, its
  attributes in document order, its children and the \<open>component\<close> property the
  library puts on the root of a component; for a text node its data. The trees
  handed to the reconciler are separate structures.
\<close>

datatype node =
    Element (ident: nat) string "(string \<times> string) list" "node list" "nat option"
  | Text (ident: nat) string "nat option"

text \<open>\<open>tagName\<close> is \<open>undefined\<close> on a text node.\<close>

fun tagName :: "node \<Rightarrow> string option" where
  "tagName (Element _ t _ _ _) = Some t"
| "tagName (Text _ _ _) = None"

text \<open>\<open>n.nodeType === Node.TEXT_NODE\<close>\<close>

fun isTextNode :: "node \<Rightarrow> bool" where
  "isTextNode (Element _ _ _ _ _) = False"
| "isTextNode (Text _ _ _) = True"

text \<open>The \<open>component\<close> property of a node: the identity of the owning component.\<close>

fun node_component :: "node \<Rightarrow> nat option" where
  "node_component (Element _ _ _ _ c) = c"
| "node_component (Text _ _ c) = c"

fun set_component :: "node \<Rightarrow> nat option \<Rightarrow> node" where
  "set_component (Element i t as cs _) c = Element i t as cs c"
| "set_component (Text i d _) c = Text i d c"

text \<open>
  \<open>isEqualNode\<close> of the DOM: same kind of node, same tag, the same number of
  attributes and every attribute of the one among those of the other, the same
  children pairwise; for text the same data. Identity and the \<open>component\<close>
  property play no part.
\<close>

fun isEqualNode :: "node \<Rightarrow> node \<Rightarrow> bool" where
  "isEqualNode (Text _ d _) (Text _ d' _) = (d = d')"
| "isEqualNode (Element _ t as cs _) (Element _ t' as' cs' _) =
     (t = t' \<and> length as = length as' \<and> list_all (\<lambda>a. a \<in> set as') as \<and>
      list_all2 isEqualNode cs cs')"
| "isEqualNode _ _ = False"

text \<open>
  The calls of mutating DOM primitives, in the order they are made. The first
  argument is the identity of the node the method is called on.
\<close>

datatype dom_call =
    ReplaceWith nat nat
  | RemoveChild nat nat
  | RemoveAttribute nat string
  | AppendChild nat nat
  | SetAttribute nat string string
  | SetValue nat string
  | AddEventListener nat jsval jsval
  | RemoveEventListener nat jsval jsval

section \<open>Event bindings\<close>

text \<open>
  An entry of an \<open>events\<close> array: the object \<open>{type, listener, selector}\<close>, to which
  \<open>putEvents\<close> adds the property \<open>_listener\<close> (here \<open>cached\<close>). A property that
  is missing reads as \<open>JUndefined\<close>.
\<close>

record evListener =
  type :: jsval
  listener :: jsval
  selector :: jsval
  cached :: jsval

text \<open>
  Arrays of entries and the entries themselves are shared mutable objects, so they
  live in a store: \<open>arrays\<close> gives the entry addresses an array holds, \<open>entries\<close>
  the properties of an entry, and \<open>events\<close> the \<open>events\<close> property of every
  component object (\<open>None\<close> when it is unset), by component identity.
  \<open>next_addr\<close> is the next unused address; objects and cloned nodes take their
  identity from it.
\<close>

record world =
  events :: "nat \<Rightarrow> nat option"
  arrays :: "nat \<Rightarrow> nat list"
  entries :: "nat \<Rightarrow> evListener"
  next_addr :: nat

definition new_array :: "world \<Rightarrow> nat list \<Rightarrow> nat \<times> world" where
  "new_array w xs =
     (next_addr w, w\<lparr>arrays := (arrays w)(next_addr w := xs), next_addr := Suc (next_addr w)\<rparr>)"

definition new_entry :: "world \<Rightarrow> evListener \<Rightarrow> nat \<times> world" where
  "new_entry w ev =
     (next_addr w, w\<lparr>entries := (entries w)(next_addr w := ev), next_addr := Suc (next_addr w)\<rparr>)"

text \<open>
  The body of the \<open>forEach\<close> in \<open>putEvents\<close>, over the entry addresses of
  \<open>this.events\<close>. Without a selector the wrapper is \<open>current.listener.bind(this)\<close>,
  which raises \<open>TypeError\<close> unless the listener is a function.
\<close>

fun putEvents_each :: "world \<Rightarrow> nat \<Rightarrow> nat list \<Rightarrow> dom_call list \<times> error option \<times> world" where
  "putEvents_each w el [] = ([], None, w)"
| "putEvents_each w el (a # as) =
     (let current = entries w a in
      if \<not> truthy (cached current) \<and> \<not> truthy (selector current) \<and> \<not> callable (listener current)
      then ([], Some TypeError, w)
      else
        let w1 = (if \<not> truthy (cached current)
                  then w\<lparr>entries := (entries w)(a := current\<lparr>cached := JWrapper a\<rparr>)\<rparr>
                  else w);
            current1 = entries w1 a
        in (case putEvents_each w1 el as of
              (log, r, w2) \<Rightarrow> (AddEventListener el (type current1) (cached current1) # log, r, w2)))"

text \<open>\<open>putEvents(el)\<close> of the component with identity \<open>this\<close>.\<close>

definition putEvents :: "world \<Rightarrow> nat \<Rightarrow> nat \<Rightarrow> dom_call list \<times> error option \<times> world" where
  "putEvents w this el =
     (case events w this of
        None \<Rightarrow> ([], None, w)
      | Some arr \<Rightarrow> putEvents_each w el (arrays w arr))"

section \<open>The reconciler\<close>

text \<open>\<open>cloneNode(true)\<close>: a new node for every node of the subtree, without the
  \<open>component\<close> property.\<close>

fun cloneNode :: "world \<Rightarrow> node \<Rightarrow> node \<times> world"
  and cloneNodes :: "world \<Rightarrow> node list \<Rightarrow> node list \<times> world" where
  "cloneNode w (Text _ d _) = (Text (next_addr w) d None, w\<lparr>next_addr := Suc (next_addr w)\<rparr>)"
| "cloneNode w (Element _ t as cs _) =
     (case cloneNodes (w\<lparr>next_addr := Suc (next_addr w)\<rparr>) cs of
        (cs', w') \<Rightarrow> (Element (next_addr w) t as cs' None, w'))"
| "cloneNodes w [] = ([], w)"
| "cloneNodes w (c # cs) =
     (case cloneNode w c of (c', w1) \<Rightarrow>
        (case cloneNodes w1 cs of (cs', w2) \<Rightarrow> (c' # cs', w2)))"

text \<open>\<open>setAttribute\<close>: overwrite in place, or add at the end.\<close>

fun setAttribute :: "(string \<times> string) list \<Rightarrow> string \<Rightarrow> string \<Rightarrow> (string \<times> string) list" where
  "setAttribute [] n v = [(n, v)]"
| "setAttribute ((m, u) # as) n v =
     (if m = n then (m, v) # as else (m, u) # setAttribute as n v)"

text \<open>The last \<open>forEach\<close> of \<open>copyNode\<close>, over the attributes of \<open>node\<close>.\<close>

fun writeAttributes :: "nat \<Rightarrow> (string \<times> string) list \<Rightarrow> (string \<times> string) list
    \<Rightarrow> (string \<times> string) list \<times> dom_call list" where
  "writeAttributes i as [] = (as, [])"
| "writeAttributes i as ((n, v) # vals) =
     (case writeAttributes i (setAttribute as n v) vals of
        (as', log) \<Rightarrow>
          (as', SetAttribute i n v # (if n = ''value'' then [SetValue i v] else []) @ log))"

text \<open>
  \<open>copyNode(into, node)\<close>. The result is the node that stands where \<open>into\<close> stood
  (the value returned when no exception is raised), the DOM calls made, the
  exception raised if any, and the store. \<open>copyChildren\<close> is the \<open>forEach\<close> over
  the children of \<open>node\<close>, position by position: \<open>ics\<close> are the children of
  \<open>into\<close> from the current index on.
\<close>

fun copyNode :: "world \<Rightarrow> node \<Rightarrow> node \<Rightarrow> node \<times> dom_call list \<times> error option \<times> world"
  and copyChildren :: "world \<Rightarrow> nat \<Rightarrow> node list \<Rightarrow> node list
    \<Rightarrow> node list \<times> dom_call list \<times> error option \<times> world" where
  "copyNode w into node =
     (if ident into = ident node then (into, [], None, w)
      else if tagName into \<noteq> tagName node \<or> isTextNode into \<or> isTextNode node \<or>
              (node_component into \<noteq> None \<and> node_component node = None)
      then (node, [ReplaceWith (ident into) (ident node)], None, w)
      else if node_component node \<noteq> None \<and> node_component into \<noteq> node_component node
      then (case node_component node of
              None \<Rightarrow> (node, [ReplaceWith (ident into) (ident node)], None, w)
            | Some owner \<Rightarrow>
                (case putEvents w owner (ident node) of
                   (log, r, w') \<Rightarrow> (node, ReplaceWith (ident into) (ident node) # log, r, w')))
      else if isEqualNode into node then (into, [], None, w)
      else
        (case into of
           Text _ _ _ \<Rightarrow> (into, [], None, w)
         | Element i t as cs c \<Rightarrow>
             (case node of
                Text _ _ _ \<Rightarrow> (into, [], None, w)
              | Element i' t' as' cs' c' \<Rightarrow>
                  let l = length cs';
                      log5 = (if length cs > l then map (\<lambda>ch. RemoveChild i (ident ch)) (drop l cs) else []);
                      cs1 = (if length cs > l then take l cs else cs);
                      gone = filter (\<lambda>name. name \<notin> set (map fst as')) (map fst as);
                      log6 = map (RemoveAttribute i) gone;
                      as1 = filter (\<lambda>a. fst a \<notin> set gone) as
                  in (case copyChildren w i cs1 cs' of
                        (cs2, log7, Some e, w') \<Rightarrow> (Element i t as1 cs2 c, log5 @ log6 @ log7, Some e, w')
                      | (cs2, log7, None, w') \<Rightarrow>
                          (case writeAttributes i as1 as' of
                             (as2, log8) \<Rightarrow>
                               (Element i t as2 cs2 c, log5 @ log6 @ log7 @ log8, None, w'))))))"
| "copyChildren w p ics [] = (ics, [], None, w)"
| "copyChildren w p [] (val # vals) =
     (case (if node_component val \<noteq> None then (val, w) else cloneNode w val) of
        (ch, w1) \<Rightarrow>
          (case copyChildren w1 p [] vals of
             (rest, log, r, w2) \<Rightarrow> (ch # rest, AppendChild p (ident ch) # log, r, w2)))"
| "copyChildren w p (childInto # ics) (val # vals) =
     (case copyNode w childInto val of
        (ch, log1, Some e, w1) \<Rightarrow> (ch # ics, log1, Some e, w1)
      | (ch, log1, None, w1) \<Rightarrow>
          (case copyChildren w1 p ics vals of
             (rest, log2, r, w2) \<Rightarrow> (ch # rest, log1 @ log2, r, w2)))"

declare copyNode.simps [simp del]

section \<open>Component\<close>

text \<open>
  The fields of a component object, without \<open>events\<close>, which is in the store.
  The template is the function that \<open>render\<close> calls, here a function of the
  state and the props it can read; \<open>None\<close> stands for a component without a
  template. Listeners and templates do not call back into the component.
\<close>

record component =
  cid :: nat
  state :: store
  props :: store
  template :: "(store \<Rightarrow> store \<Rightarrow> node) option"
  sideEffects :: effectHandler
  element :: "node option"

text \<open>\<open>Reactive.Component(template, initialState)\<close> on the new object \<open>this\<close>.\<close>

definition Component :: "nat \<Rightarrow> (store \<Rightarrow> store \<Rightarrow> node) option \<Rightarrow> store \<Rightarrow> component" where
  "Component this tmpl initialState =
     \<lparr>cid = this, state = state_init initialState, props = Map.empty, template = tmpl,
      sideEffects = EffectHandler, element = None\<rparr>"

text \<open>What a method leaves behind: the component, the store, the listener calls
  and the DOM calls made, and the exception that ended it, if any.\<close>

record result =
  r_comp :: component
  r_world :: world
  r_calls :: "string list invocation list"
  r_dom :: "dom_call list"
  r_raised :: "error option"

text \<open>
  \<open>render()\<close>. When \<open>copyNode\<close> raises, the assignment to \<open>this.element\<close> is not
  reached: the field still refers to the old root, with whatever was done to it.
\<close>

definition render :: "world \<Rightarrow> component \<Rightarrow> result" where
  "render w c =
     (case template c of
        None \<Rightarrow> \<lparr>r_comp = c, r_world = w, r_calls = [], r_dom = [], r_raised = Some TypeError\<rparr>
      | Some tmpl \<Rightarrow>
          let newTemp = set_component (tmpl (state c) (props c)) (Some (cid c)) in
          if element c = None \<or> \<not> (case element c of None \<Rightarrow> False | Some el \<Rightarrow> isEqualNode el newTemp)
          then
            (case (case element c of
                     Some el \<Rightarrow> copyNode w el newTemp
                   | None \<Rightarrow> (newTemp, [], None, w)) of
               (node, log, Some e, w1) \<Rightarrow>
                 \<lparr>r_comp = c\<lparr>element := (case element c of
                                            None \<Rightarrow> None
                                          | Some el \<Rightarrow> Some (if ident node = ident el then node else el))\<rparr>,
                  r_world = w1, r_calls = [], r_dom = log, r_raised = Some e\<rparr>
             | (node, log, None, w1) \<Rightarrow>
                 let el1 = set_component node (Some (cid c)) in
                 (case putEvents w1 (cid c) (ident el1) of
                    (log2, r, w2) \<Rightarrow>
                      \<lparr>r_comp = c\<lparr>element := Some el1\<rparr>, r_world = w2, r_calls = [],
                       r_dom = log @ log2, r_raised = r\<rparr>))
          else \<lparr>r_comp = c, r_world = w, r_calls = [], r_dom = [], r_raised = None\<rparr>)"

text \<open>
  An object handed to \<open>setState\<close> is given by its own properties, each key with its
  value, in the order in which they were supplied; no key occurs twice.
  \<open>Object.keys\<close> lists the keys that are array indices first, in ascending numeric
  order, and then the other keys in the order supplied. An array index is the
  decimal numeral, without leading zeros, of a number below \<open>2^32 - 1\<close>.
\<close>

definition is_digit :: "char \<Rightarrow> bool" where
  "is_digit c = (48 \<le> (of_char c :: nat) \<and> (of_char c :: nat) \<le> 57)"

definition digits_value :: "string \<Rightarrow> nat" where
  "digits_value s = foldl (\<lambda>n c. 10 * n + ((of_char c :: nat) - 48)) 0 s"

definition is_array_index :: "string \<Rightarrow> bool" where
  "is_array_index s =
     (case s of
        [] \<Rightarrow> False
      | c # cs \<Rightarrow> list_all is_digit s \<and> (c = CHR ''0'' \<longrightarrow> cs = []) \<and>
                 digits_value s < 4294967295)"

text \<open>The keys of \<open>Object.keys(obj)\<close>, in that order, each with the value \<open>obj[key]\<close>.\<close>

definition own_property_order :: "(string \<times> 'v) list \<Rightarrow> (string \<times> 'v) list" where
  "own_property_order obj =
     sort_key (\<lambda>kv. digits_value (fst kv)) (filter (\<lambda>kv. is_array_index (fst kv)) obj) @
     filter (\<lambda>kv. \<not> is_array_index (fst kv)) obj"




text \<open>\<open>get(props)\<close>; the value returned is the \<open>element\<close> of the component left.\<close>

definition get :: "world \<Rightarrow> component \<Rightarrow> store \<Rightarrow> result" where
  "get w c ps = render w (c\<lparr>props := ps\<rparr>)"

text \<open>\<open>addEventListener(type, listener, selector = null)\<close>\<close>

definition addEventListener :: "world \<Rightarrow> component \<Rightarrow> jsval \<Rightarrow> jsval \<Rightarrow> jsval \<Rightarrow> result" where
  "addEventListener w c ty li sel =
     (let (arr, w1) = (case events w (cid c) of
                         Some arr \<Rightarrow> (arr, w)
                       | None \<Rightarrow> (case new_array w [] of
                                    (arr, w') \<Rightarrow> (arr, w'\<lparr>events := (events w')(cid c := Some arr)\<rparr>)));
          (a, w2) = new_entry w1 \<lparr>type = ty, listener = li, selector = sel, cached = JUndefined\<rparr>;
          w3 = w2\<lparr>arrays := (arrays w2)(arr := arrays w2 arr @ [a])\<rparr>
      in (case element c of
            None \<Rightarrow> \<lparr>r_comp = c, r_world = w3, r_calls = [], r_dom = [], r_raised = None\<rparr>
          | Some el \<Rightarrow>
              (case putEvents w3 (cid c) (ident el) of
                 (log, r, w4) \<Rightarrow>
                   \<lparr>r_comp = c, r_world = w4, r_calls = [], r_dom = log, r_raised = r\<rparr>)))"

text \<open>The predicate of the \<open>findIndex\<close> in \<open>removeEventListener\<close>.\<close>

definition same_binding :: "jsval \<Rightarrow> jsval \<Rightarrow> jsval \<Rightarrow> evListener \<Rightarrow> bool" where
  "same_binding ty li sel event =
     (strict_eq (type event) ty \<and> strict_eq (listener event) li \<and>
      ((\<not> truthy (selector event) \<and> \<not> truthy sel) \<or> strict_eq (selector event) sel))"

fun findIndex :: "('a \<Rightarrow> bool) \<Rightarrow> 'a list \<Rightarrow> nat option" where
  "findIndex P [] = None"
| "findIndex P (x # xs) =
     (if P x then Some 0 else (case findIndex P xs of None \<Rightarrow> None | Some i \<Rightarrow> Some (Suc i)))"

text \<open>\<open>removeEventListener(type, listener, selector = null)\<close>\<close>

definition removeEventListener :: "world \<Rightarrow> component \<Rightarrow> jsval \<Rightarrow> jsval \<Rightarrow> jsval \<Rightarrow> result" where
  "removeEventListener w c ty li sel =
     (case events w (cid c) of
        None \<Rightarrow> \<lparr>r_comp = c, r_world = w, r_calls = [], r_dom = [], r_raised = None\<rparr>
      | Some arr \<Rightarrow>
          (case findIndex (\<lambda>a. same_binding ty li sel (entries w a)) (arrays w arr) of
             None \<Rightarrow> \<lparr>r_comp = c, r_world = w, r_calls = [], r_dom = [], r_raised = None\<rparr>
           | Some i \<Rightarrow>
               let event = entries w (arrays w arr ! i);
                   log = (case element c of
                            None \<Rightarrow> []
                          | Some el \<Rightarrow>
                              if truthy (cached event)
                              then [RemoveEventListener (ident el) (type event) (cached event)]
                              else [])
               in \<lparr>r_comp = c,
                   r_world = w\<lparr>arrays := (arrays w)(arr := splice1 (arrays w arr) i)\<rparr>,
                   r_calls = [], r_dom = log, r_raised = None\<rparr>))"

section \<open>createComponent\<close>

text \<open>
  What the closure \<open>_Comp\<close> keeps of the configuration: the template, the initial
  state, and the address of the \<open>events\<close> array (the array of the configuration, or
  the one empty array made when the configuration has none). \<open>definitions\<close> is
  what the configured definitions do to the new object, before \<open>events\<close> is set.
\<close>

record kind =
  k_template :: "(store \<Rightarrow> store \<Rightarrow> node) option"
  k_initialState :: store
  k_definitions :: "component \<Rightarrow> component"
  k_events :: nat

record componentConfig =
  cfg_template :: "(store \<Rightarrow> store \<Rightarrow> node) option"
  cfg_initialState :: "store option"
  cfg_definitions :: "(component \<Rightarrow> component) option"
  cfg_events :: "nat option"

definition createComponent :: "world \<Rightarrow> componentConfig \<Rightarrow> kind \<times> world" where
  "createComponent w cfg =
     (case (case cfg_events cfg of Some arr \<Rightarrow> (arr, w) | None \<Rightarrow> new_array w []) of
        (arr, w1) \<Rightarrow>
          (\<lparr>k_template = cfg_template cfg,
            k_initialState = (case cfg_initialState cfg of Some s \<Rightarrow> s | None \<Rightarrow> Map.empty),
            k_definitions = (case cfg_definitions cfg of Some d \<Rightarrow> d | None \<Rightarrow> (\<lambda>c. c)),
            k_events = arr\<rparr>, w1))"

text \<open>\<open>(e) => e.type && e.listener\<close>\<close>

definition well_formed_event :: "evListener \<Rightarrow> bool" where
  "well_formed_event e = (truthy (type e) \<and> truthy (listener e))"

text \<open>\<open>.map((e) => { return { ...e }; })\<close>: a new object for every entry.\<close>

fun copy_entries :: "world \<Rightarrow> nat list \<Rightarrow> nat list \<times> world" where
  "copy_entries w [] = ([], w)"
| "copy_entries w (a # as) =
     (case new_entry w (entries w a) of
        (a', w1) \<Rightarrow> (case copy_entries w1 as of (as', w2) \<Rightarrow> (a' # as', w2)))"

text \<open>
  \<open>new _Comp()\<close>. The new object takes the next address as its identity. The
  template is on the prototype; \<open>Reactive.Component\<close> is called with \<open>null\<close>.
\<close>

definition new_Comp :: "world \<Rightarrow> kind \<Rightarrow> component \<times> world" where
  "new_Comp w k =
     (let this = next_addr w;
          w0 = w\<lparr>next_addr := Suc (next_addr w), events := (events w)(this := None)\<rparr>;
          c = k_definitions k ((Component this None (k_initialState k))\<lparr>template := k_template k\<rparr>);
          kept = filter (\<lambda>a. well_formed_event (entries w0 a)) (arrays w0 (k_events k))
      in (case copy_entries w0 kept of
            (as, w1) \<Rightarrow>
              (case new_array w1 as of
                 (arr, w2) \<Rightarrow> (c\<lparr>cid := this\<rparr>, w2\<lparr>events := (events w2)(this := Some arr)\<rparr>))))"

section \<open>Closed forms used in the statements\<close>

text \<open>The store with no component, no array and no entry allocated.\<close>

definition no_entry :: evListener where
  "no_entry = \<lparr>type = JUndefined, listener = JUndefined, selector = JUndefined, cached = JUndefined\<rparr>"

definition empty_world :: world where
  "empty_world = \<lparr>events = (\<lambda>_. None), arrays = (\<lambda>_. []), entries = (\<lambda>_. no_entry), next_addr = 0\<rparr>"


text \<open>The calls of the listeners of the given keys, key by key, each without arguments.\<close>

definition per_key_calls :: "effectHandler \<Rightarrow> string list \<Rightarrow> 'a invocation list" where
  "per_key_calls e ks =
     concat (map (\<lambda>k. map (\<lambda>f. Invoke f []) (case al e k of None \<Rightarrow> [] | Some l \<Rightarrow> l)) ks)"





text \<open>A small component for concrete runs.\<close>

definition hello_template :: "store \<Rightarrow> store \<Rightarrow> node" where
  "hello_template s ps =
     Element 100 ''div'' [(''class'', ''hello'')]
       [Text 101 (case s ''a'' of Some (JStr t) \<Rightarrow> t | _ \<Rightarrow> ''?'') None] None"

definition demo_component :: component where
  "demo_component =
     \<lparr>cid = 7,
      state = [''a'' \<mapsto> JNum 0, ''b'' \<mapsto> JNum 0],
      props = Map.empty,
      template = Some hello_template,
      sideEffects = \<lparr>al = [''a'' \<mapsto> [JFun 1], ''b'' \<mapsto> [JFun 2]], globals = [JFun 3]\<rparr>,
      element = None\<rparr>"


text \<open>
  \<open>copyNode(into, node)\<close> discards \<open>into\<close> and puts \<open>node\<close> in its place: the first
  DOM call is \<open>into.replaceWith(node)\<close> and \<open>node\<close> is what stands there afterwards.
\<close>

definition whole_replacement :: "world \<Rightarrow> node \<Rightarrow> node \<Rightarrow> bool" where
  "whole_replacement w into node =
     (case copyNode w into node of
        (n, log, r, w') \<Rightarrow> n = node \<and> take 1 log = [ReplaceWith (ident into) (ident node)])"

text \<open>
  The triggers of a whole replacement in the words of the specification: the tags
  differ; one of the two is a text node and the other is not; one of the two is owned
  by a component and the other is not.
\<close>

definition spec_replacement_trigger :: "node \<Rightarrow> node \<Rightarrow> bool" where
  "spec_replacement_trigger into node =
     (tagName into \<noteq> tagName node \<or>
      isTextNode into \<noteq> isTextNode node \<or>
      (node_component into \<noteq> None) \<noteq> (node_component node \<noteq> None))"

text \<open>
  The triggers as the two guards of \<open>copyNode\<close> have them: the tags differ; either
  of the two is a text node; \<open>into\<close> is owned and \<open>node\<close> is not; \<open>node\<close> is owned
  and its owner is not the owner of \<open>into\<close>.
\<close>

definition replacement_trigger :: "node \<Rightarrow> node \<Rightarrow> bool" where
  "replacement_trigger into node =
     (tagName into \<noteq> tagName node \<or> isTextNode into \<or> isTextNode node \<or>
      (node_component into \<noteq> None \<and> node_component node = None) \<or>
      (node_component node \<noteq> None \<and> node_component into \<noteq> node_component node))"

text \<open>The same component after its first render.\<close>

definition mounted_demo :: component where
  "mounted_demo =
     demo_component\<lparr>element :=
       Some (Element 200 ''div'' [(''class'', ''hello'')] [Text 201 ''?'' None] (Some 7))\<rparr>"

text \<open>What an array of entries holds: the entry objects, in order.\<close>

definition events_view :: "world \<Rightarrow> nat \<Rightarrow> evListener list" where
  "events_view w arr = map (entries w) (arrays w arr)"

text \<open>
  The \<open>events\<close> array of a kind and the entries in it are objects that exist: their
  addresses are below the next unused one.
\<close>

definition kind_ok :: "world \<Rightarrow> kind \<Rightarrow> bool" where
  "kind_ok w k = (k_events k < next_addr w \<and> (\<forall>a \<in> set (arrays w (k_events k)). a < next_addr w))"

text \<open>
  Calls of \<open>addEventListener\<close> and \<open>removeEventListener\<close> on one component, one
  after the other, whether or not one raises.
\<close>

datatype event_op = AddListener jsval jsval jsval | RemoveListener jsval jsval jsval

fun run_op :: "world \<Rightarrow> component \<Rightarrow> event_op \<Rightarrow> world" where
  "run_op w c (AddListener ty li sel) = r_world (addEventListener w c ty li sel)"
| "run_op w c (RemoveListener ty li sel) = r_world (removeEventListener w c ty li sel)"

fun run_ops :: "world \<Rightarrow> component \<Rightarrow> event_op list \<Rightarrow> world" where
  "run_ops w c [] = w"
| "run_ops w c (op # ops) = run_ops (run_op w c op) c ops"

text \<open>The event type of a call of \<open>addEventListener\<close> on a node.\<close>

fun attached_type :: "dom_call \<Rightarrow> jsval option" where
  "attached_type (AddEventListener _ t _) = Some t"
| "attached_type _ = None"

text \<open>
  The array \<open>b\<close> and its entries are objects other than the array \<open>arr\<close> and its
  entries, and all of them exist.
\<close>

definition separate :: "world \<Rightarrow> nat \<Rightarrow> nat \<Rightarrow> bool" where
  "separate w arr b =
     (b \<noteq> arr \<and> b < next_addr w \<and> arr < next_addr w \<and>
      (\<forall>a \<in> set (arrays w b). a < next_addr w \<and> a \<notin> set (arrays w arr)))"

text \<open>The \<open>events\<close> array of a configuration and its entries are objects that exist.\<close>

definition config_ok :: "world \<Rightarrow> componentConfig \<Rightarrow> bool" where
  "config_ok w cfg =
     (case cfg_events cfg of
        None \<Rightarrow> True
      | Some arr \<Rightarrow> arr < next_addr w \<and> (\<forall>a \<in> set (arrays w arr). a < next_addr w))"

text \<open>The entries of the configured \<open>events\<close> list; none when the list is missing.\<close>

definition configured_events :: "world \<Rightarrow> componentConfig \<Rightarrow> evListener list" where
  "configured_events w cfg = (case cfg_events cfg of None \<Rightarrow> [] | Some arr \<Rightarrow> events_view w arr)"

text \<open>
  A configuration for concrete runs: three configured events, the second with an
  empty type and the third without a listener.
\<close>

definition demo_world :: world where
  "demo_world =
     \<lparr>events = (\<lambda>_. None),
      arrays = (\<lambda>_. [])(0 := [1, 2, 3]),
      entries = (\<lambda>_. no_entry)
        (1 := \<lparr>type = JStr ''click'', listener = JFun 1, selector = JNull, cached = JUndefined\<rparr>,
         2 := \<lparr>type = JStr [], listener = JFun 2, selector = JNull, cached = JUndefined\<rparr>,
         3 := \<lparr>type = JStr ''change'', listener = JUndefined, selector = JStr ''.x'', cached = JUndefined\<rparr>),
      next_addr = 4\<rparr>"

definition demo_config :: componentConfig where
  "demo_config =
     \<lparr>cfg_template = Some hello_template, cfg_initialState = Some [''a'' \<mapsto> JStr ''hi''],
      cfg_definitions = None, cfg_events = Some 0\<rparr>"

definition demo_kind :: kind where
  "demo_kind = fst (createComponent demo_world demo_config)"

section \<open>Properties of the effect registry\<close>

lemma instanceof_js_not [simp]: "instanceof_Function (js_not v) = False"
  by (simp add: js_not_def)

lemma al_get_own [simp]: "al e key = Some l \<Longrightarrow> al_get e key = Listeners l"
  by (simp add: al_get_def)

lemma al_get_unknown [simp]:
  "al e key = None \<Longrightarrow> key \<notin> set Object_prototype_names \<Longrightarrow> al_get e key = Missing"
  by (simp add: al_get_def)

lemma al_get_inherited [simp]:
  "al e key = None \<Longrightarrow> key \<in> set Object_prototype_names \<Longrightarrow> al_get e key = Inherited"
  by (simp add: al_get_def)

lemma add_appends:
  assumes "al e key \<noteq> None \<or> key \<notin> set Object_prototype_names"
  shows "add e key action =
     Inr (e\<lparr>al := (al e)(key \<mapsto> (case al e key of None \<Rightarrow> [] | Some l \<Rightarrow> l) @ [action])\<rparr>)"
proof (cases "al e key")
  case None
  with assms have "al_get e key = Missing"
    by simp
  with None show ?thesis
    by (simp add: add_def)
next
  case (Some l)
  then show ?thesis
    by (simp add: add_def)
qed

lemma addGlobal_appends:
  "addGlobal e action = Inr (e\<lparr>globals := globals e @ [action]\<rparr>)"
  by (simp add: addGlobal_def)

text \<open>
  C1. A value that is not callable is meant to be refused with \<open>TypeError\<close>, the
  registry left as it was. The guard tests \<open>!action\<close>, a boolean, which is never an
  instance of \<open>Function\<close>: on the empty registry \<open>add("k", 5)\<close> and
  \<open>addGlobal(5)\<close> return normally, and the number 5 is stored as a listener.
\<close>

theorem add_noncallable_is_stored:
  "\<not> callable (JNum 5) \<and>
   add EffectHandler ''k'' (JNum 5) = Inr \<lparr>al = [''k'' \<mapsto> [JNum 5]], globals = []\<rparr> \<and>
   addGlobal EffectHandler (JNum 5) = Inr \<lparr>al = Map.empty, globals = [JNum 5]\<rparr>"
proof -
  have "al EffectHandler ''k'' \<noteq> None \<or> ''k'' \<notin> set Object_prototype_names"
    by (simp add: Object_prototype_names_def)
  then show ?thesis
    by (simp add: add_appends addGlobal_appends EffectHandler_def callable_def)
qed

lemma strict_eq_truthy: "truthy a \<Longrightarrow> strict_eq x a = (x = a)"
  by (cases x; cases a) simp_all

lemma indexOf_None_iff: "truthy a \<Longrightarrow> (indexOf l a = None) = (a \<notin> set l)"
  by (induction l) (auto simp: strict_eq_truthy split: option.splits)

lemma indexOf_splice1:
  "truthy a \<Longrightarrow> indexOf l a = Some i \<Longrightarrow> splice1 l i = remove1 a l"
proof (induction l arbitrary: i)
  case Nil
  then show ?case by simp
next
  case (Cons x xs)
  show ?case
  proof (cases "x = a")
    case True
    with Cons.prems show ?thesis
      by (simp add: strict_eq_truthy splice1_def)
  next
    case False
    with Cons.prems obtain j where j: "indexOf xs a = Some j" "i = Suc j"
      by (auto simp: strict_eq_truthy split: option.splits)
    with Cons.IH [OF Cons.prems(1) j(1)] False show ?thesis
      by (simp add: splice1_def)
  qed
qed

lemma remove_own_or_unknown_key:
  "(al e key = None \<and> key \<notin> set Object_prototype_names \<longrightarrow> remove e key action = Returns e False) \<and>
   (\<forall>l. al e key = Some l \<longrightarrow>
        remove e key (JBool False) = Returns (e\<lparr>al := (al e)(key \<mapsto> [])\<rparr>) True) \<and>
   (\<forall>l. al e key = Some l \<and> truthy action \<longrightarrow>
        remove e key action =
          (if action \<in> set l then Returns (e\<lparr>al := (al e)(key \<mapsto> remove1 action l)\<rparr>) True
           else Returns e False))"
proof (intro conjI allI impI)
  show "remove e key action = Returns e False"
    if "al e key = None \<and> key \<notin> set Object_prototype_names"
    using that by (simp add: remove_def)
  show "remove e key (JBool False) = Returns (e\<lparr>al := (al e)(key \<mapsto> [])\<rparr>) True"
    if "al e key = Some l" for l
    using that by (simp add: remove_def)
  show "remove e key action =
          (if action \<in> set l then Returns (e\<lparr>al := (al e)(key \<mapsto> remove1 action l)\<rparr>) True
           else Returns e False)"
    if h: "al e key = Some l \<and> truthy action" for l
  proof (cases "indexOf l action")
    case None
    from h have k: "al e key = Some l" and t: "truthy action"
      by simp_all
    from t None have "action \<notin> set l"
      using indexOf_None_iff [of action l] by simp
    with k t None show ?thesis
      by (simp add: remove_def)
  next
    case (Some i)
    from h have k: "al e key = Some l" and t: "truthy action"
      by simp_all
    from t Some have m: "action \<in> set l"
      using indexOf_None_iff [of action l] by auto
    from t Some have "splice1 l i = remove1 action l"
      by (rule indexOf_splice1)
    with k t m Some show ?thesis
      by (simp add: remove_def)
  qed
qed

text \<open>
  C8. A key that was never registered is meant to be unknown: \<open>remove\<close> returns
  \<open>false\<close> and changes nothing. The guard is \<open>!al[key]\<close> on an object made by
  \<open>{}\<close>, and for a key that names a member of \<open>Object.prototype\<close> the read is
  truthy: on the empty registry \<open>remove("toString")\<close> returns \<open>true\<close> and leaves
  an empty list under \<open>toString\<close>, and \<open>remove("constructor", f)\<close> raises
  \<open>TypeError\<close>.
\<close>

theorem remove_inherited_key:
  "al EffectHandler ''toString'' = None \<and>
   remove EffectHandler ''toString'' (JBool False)
     = Returns \<lparr>al = [''toString'' \<mapsto> []], globals = []\<rparr> True \<and>
   al EffectHandler ''constructor'' = None \<and>
   remove EffectHandler ''constructor'' (JFun 1) = Raises TypeError"
  by (simp add: remove_def al_get_def EffectHandler_def Object_prototype_names_def)

section \<open>Properties of the state store\<close>



section \<open>Properties of setState\<close>





lemma set_own_property_order [simp]: "set (own_property_order p) = set p"
  by (auto simp: own_property_order_def)
















lemma per_key_calls_Nil [simp]: "per_key_calls e [] = []"
  by (simp add: per_key_calls_def)






lemma letters_not_index [simp]:
  "\<not> is_array_index ''a''" "\<not> is_array_index ''b''" "\<not> is_array_index ''z''"
  "\<not> is_array_index ''unknownKey''"
  by (simp_all add: is_array_index_def is_digit_def)

lemma letters_not_inherited [simp]:
  "''a'' \<notin> set Object_prototype_names" "''b'' \<notin> set Object_prototype_names"
  "''1'' \<notin> set Object_prototype_names"
  by (simp_all add: Object_prototype_names_def)

















section \<open>Properties of the reconciler\<close>


lemma copyNode_trigger:
  assumes "ident into \<noteq> ident node" and "replacement_trigger into node"
  shows "\<exists>log r w'. copyNode w into node = (node, ReplaceWith (ident into) (ident node) # log, r, w')"
proof (cases "tagName into \<noteq> tagName node \<or> isTextNode into \<or> isTextNode node \<or>
              (node_component into \<noteq> None \<and> node_component node = None)")
  case True
  with assms(1) show ?thesis
    by (subst copyNode.simps) simp
next
  case False
  with assms(2) obtain owner where o: "node_component node = Some owner"
    and d: "node_component into \<noteq> node_component node"
    by (auto simp: replacement_trigger_def)
  obtain log r w' where pe: "putEvents w owner (ident node) = (log, r, w')"
    by (cases "putEvents w owner (ident node)") auto
  from assms(1) False o d pe show ?thesis
    by (subst copyNode.simps) simp
qed

lemma copyNode_no_trigger_ident:
  assumes "\<not> replacement_trigger into node"
  shows "ident (fst (copyNode w into node)) = ident into"
proof -
  from assms have nt: "\<not> isTextNode into" "\<not> isTextNode node"
    and n1: "\<not> (tagName into \<noteq> tagName node \<or> isTextNode into \<or> isTextNode node \<or>
                (node_component into \<noteq> None \<and> node_component node = None))"
    and n2: "\<not> (node_component node \<noteq> None \<and> node_component into \<noteq> node_component node)"
    by (simp_all add: replacement_trigger_def)
  from nt obtain i t as cs c where into: "into = Element i t as cs c"
    by (cases into) simp_all
  from nt obtain i' t' as' cs' c' where node: "node = Element i' t' as' cs' c'"
    by (cases node) simp_all
  show ?thesis
  proof (cases "ident into = ident node \<or> isEqualNode into node")
    case True
    with n1 n2 show ?thesis
      by (subst copyNode.simps) auto
  next
    case False
    then have a: "ident into \<noteq> ident node" and b: "\<not> isEqualNode into node"
      by simp_all
    have "copyNode w into node =
        (case into of
           Text _ _ _ \<Rightarrow> (into, [], None, w)
         | Element i t as cs c \<Rightarrow>
             (case node of
                Text _ _ _ \<Rightarrow> (into, [], None, w)
              | Element i' t' as' cs' c' \<Rightarrow>
                  let l = length cs';
                      log5 = (if length cs > l then map (\<lambda>ch. RemoveChild i (ident ch)) (drop l cs) else []);
                      cs1 = (if length cs > l then take l cs else cs);
                      gone = filter (\<lambda>name. name \<notin> set (map fst as')) (map fst as);
                      log6 = map (RemoveAttribute i) gone;
                      as1 = filter (\<lambda>a. fst a \<notin> set gone) as
                  in (case copyChildren w i cs1 cs' of
                        (cs2, log7, Some e, w') \<Rightarrow> (Element i t as1 cs2 c, log5 @ log6 @ log7, Some e, w')
                      | (cs2, log7, None, w') \<Rightarrow>
                          (case writeAttributes i as1 as' of
                             (as2, log8) \<Rightarrow>
                               (Element i t as2 cs2 c, log5 @ log6 @ log7 @ log8, None, w')))))"
      by (subst copyNode.simps) (simp only: a b n1 n2 if_False)
    then show ?thesis
      unfolding into node
      by (simp add: Let_def split: prod.splits option.splits)
  qed
qed

text \<open>
  C3, as the code has it. For two distinct node objects, \<open>copyNode(into, node)\<close>
  discards \<open>into\<close> and puts \<open>node\<close> in its place exactly when the tags differ, or
  either of the two is a text node (two text nodes included, whatever they hold), or
  \<open>into\<close> is owned by a component and \<open>node\<close> is not, or \<open>node\<close> is owned and its
  owner is not the owner of \<open>into\<close>. In particular the crossing where \<open>node\<close> is
  owned and \<open>into\<close> is not is a replacement.
\<close>

theorem copyNode_replacement:
  assumes "ident into \<noteq> ident node"
  shows "whole_replacement w into node = replacement_trigger into node \<and>
         (node_component node \<noteq> None \<and> node_component into = None \<longrightarrow>
            whole_replacement w into node)"
proof -
  have eq: "whole_replacement w into node = replacement_trigger into node"
  proof (cases "replacement_trigger into node")
    case True
    with copyNode_trigger [OF assms True, of w] show ?thesis
      by (auto simp: whole_replacement_def)
  next
    case False
    from copyNode_no_trigger_ident [OF False, of w] assms
    have "fst (copyNode w into node) \<noteq> node"
      by auto
    with False show ?thesis
      by (auto simp: whole_replacement_def split: prod.splits)
  qed
  moreover have "replacement_trigger into node"
    if "node_component node \<noteq> None \<and> node_component into = None"
    using that by (auto simp: replacement_trigger_def)
  ultimately show ?thesis
    by simp
qed

theorem copyNode_replacement_witness:
  "whole_replacement empty_world (Element 1 ''div'' [] [] None) (Element 2 ''div'' [] [] (Some 7)) \<and>
   \<not> whole_replacement empty_world (Element 1 ''div'' [(''id'', ''x'')] [] None)
                                     (Element 2 ''div'' [] [] None)"
proof -
  have d: "ident (Element 1 ''div'' [] [] None) \<noteq> ident (Element 2 ''div'' [] [] (Some 7))"
    and d': "ident (Element 1 ''div'' [(''id'', ''x'')] [] None) \<noteq> ident (Element 2 ''div'' [] [] None)"
    by simp_all
  from copyNode_replacement [OF d, of empty_world] copyNode_replacement [OF d', of empty_world]
  show ?thesis
    by (simp add: replacement_trigger_def)
qed

text \<open>
  Two distinct text nodes with the same data, and two elements owned by different
  components: none of the triggers in the words of the specification holds, and
  both are replaced.
\<close>

theorem copyNode_text_counterexample:
  "ident (Text 1 ''same'' None) \<noteq> ident (Text 2 ''same'' None) \<and>
   \<not> spec_replacement_trigger (Text 1 ''same'' None) (Text 2 ''same'' None) \<and>
   whole_replacement empty_world (Text 1 ''same'' None) (Text 2 ''same'' None) \<and>
   ident (Element 3 ''div'' [] [] (Some 7)) \<noteq> ident (Element 4 ''div'' [] [] (Some 8)) \<and>
   \<not> spec_replacement_trigger (Element 3 ''div'' [] [] (Some 7)) (Element 4 ''div'' [] [] (Some 8)) \<and>
   whole_replacement empty_world (Element 3 ''div'' [] [] (Some 7)) (Element 4 ''div'' [] [] (Some 8))"
  by (simp add: spec_replacement_trigger_def whole_replacement_def copyNode.simps putEvents_def
        empty_world_def)

lemma isEqualNode_same_kind:
  "isEqualNode a b \<Longrightarrow> tagName a = tagName b \<and> isTextNode a = isTextNode b"
  by (cases a; cases b) simp_all

text \<open>
  C4, as the code has it. When \<open>into\<close> and \<open>node\<close> are deep-equal, \<open>into\<close> is an
  element and neither ownership guard holds, \<open>copyNode\<close> returns \<open>into\<close> as it is
  and makes no DOM call. \<open>render\<close> does not call \<open>copyNode\<close> at all when the live
  tree and the new tree are deep-equal: it makes no DOM call and leaves the component
  as it was.
\<close>

theorem copyNode_deep_equal:
  "(isEqualNode into node \<and> \<not> isTextNode into \<and>
    \<not> (node_component into \<noteq> None \<and> node_component node = None) \<and>
    \<not> (node_component node \<noteq> None \<and> node_component into \<noteq> node_component node)
    \<longrightarrow> copyNode w into node = (into, [], None, w)) \<and>
   (template c = Some tmpl \<and> element c = Some el \<and>
    isEqualNode el (set_component (tmpl (state c) (props c)) (Some (cid c)))
    \<longrightarrow> render w c = \<lparr>r_comp = c, r_world = w, r_calls = [], r_dom = [], r_raised = None\<rparr>)"
proof (intro conjI impI)
  assume h: "isEqualNode into node \<and> \<not> isTextNode into \<and>
    \<not> (node_component into \<noteq> None \<and> node_component node = None) \<and>
    \<not> (node_component node \<noteq> None \<and> node_component into \<noteq> node_component node)"
  with isEqualNode_same_kind [of into node]
  have "tagName into = tagName node" and "\<not> isTextNode node"
    by simp_all
  with h show "copyNode w into node = (into, [], None, w)"
    by (subst copyNode.simps) auto
next
  assume "template c = Some tmpl \<and> element c = Some el \<and>
    isEqualNode el (set_component (tmpl (state c) (props c)) (Some (cid c)))"
  then show "render w c = \<lparr>r_comp = c, r_world = w, r_calls = [], r_dom = [], r_raised = None\<rparr>"
    by (simp add: render_def Let_def)
qed

text \<open>
  Two deep-equal text nodes: the first guard of \<open>copyNode\<close> comes before the test of
  deep equality, \<open>replaceWith\<close> is called and \<open>node\<close> is returned.
\<close>

theorem copyNode_deep_equal_counterexample:
  "isEqualNode (Text 1 ''same'' None) (Text 2 ''same'' None) \<and>
   copyNode empty_world (Text 1 ''same'' None) (Text 2 ''same'' None)
     = (Text 2 ''same'' None, [ReplaceWith 1 2], None, empty_world) \<and>
   copyNode empty_world (Text 1 ''same'' None) (Text 2 ''same'' None)
     \<noteq> (Text 1 ''same'' None, [], None, empty_world)"
  by (simp add: copyNode.simps)

theorem copyNode_deep_equal_witness:
  "copyNode empty_world (Element 1 ''div'' [(''class'', ''x'')] [Text 2 ''hi'' None] (Some 7))
                        (Element 3 ''div'' [(''class'', ''x'')] [Text 4 ''hi'' None] (Some 7))
     = (Element 1 ''div'' [(''class'', ''x'')] [Text 2 ''hi'' None] (Some 7), [], None, empty_world) \<and>
   render empty_world mounted_demo
     = \<lparr>r_comp = mounted_demo, r_world = empty_world, r_calls = [], r_dom = [], r_raised = None\<rparr>"
proof -
  have a: "isEqualNode (Element 1 ''div'' [(''class'', ''x'')] [Text 2 ''hi'' None] (Some 7))
                       (Element 3 ''div'' [(''class'', ''x'')] [Text 4 ''hi'' None] (Some 7)) \<and>
      \<not> isTextNode (Element 1 ''div'' [(''class'', ''x'')] [Text 2 ''hi'' None] (Some 7)) \<and>
      \<not> (node_component (Element 1 ''div'' [(''class'', ''x'')] [Text 2 ''hi'' None] (Some 7)) \<noteq> None \<and>
         node_component (Element 3 ''div'' [(''class'', ''x'')] [Text 4 ''hi'' None] (Some 7)) = None) \<and>
      \<not> (node_component (Element 3 ''div'' [(''class'', ''x'')] [Text 4 ''hi'' None] (Some 7)) \<noteq> None \<and>
         node_component (Element 1 ''div'' [(''class'', ''x'')] [Text 2 ''hi'' None] (Some 7)) \<noteq>
         node_component (Element 3 ''div'' [(''class'', ''x'')] [Text 4 ''hi'' None] (Some 7)))"
    by simp
  have b: "template mounted_demo = Some hello_template \<and>
      element mounted_demo =
        Some (Element 200 ''div'' [(''class'', ''hello'')] [Text 201 ''?'' None] (Some 7)) \<and>
      isEqualNode (Element 200 ''div'' [(''class'', ''hello'')] [Text 201 ''?'' None] (Some 7))
        (set_component (hello_template (state mounted_demo) (props mounted_demo)) (Some (cid mounted_demo)))"
    by (simp add: mounted_demo_def demo_component_def hello_template_def)
  from a b copyNode_deep_equal [of "Element 1 ''div'' [(''class'', ''x'')] [Text 2 ''hi'' None] (Some 7)"
      "Element 3 ''div'' [(''class'', ''x'')] [Text 4 ''hi'' None] (Some 7)" empty_world
      mounted_demo hello_template
      "Element 200 ''div'' [(''class'', ''hello'')] [Text 201 ''?'' None] (Some 7)"]
  show ?thesis
    by blast
qed

section \<open>Properties of the event bindings of instances\<close>


lemma copy_entries_Cons:
  "copy_entries w (a # as) =
     (next_addr w # fst (copy_entries (snd (new_entry w (entries w a))) as),
      snd (copy_entries (snd (new_entry w (entries w a))) as))"
  by (simp add: new_entry_def split: prod.splits)

lemma copy_entries_frame:
  "arrays (snd (copy_entries w as)) = arrays w \<and>
   events (snd (copy_entries w as)) = events w \<and>
   next_addr (snd (copy_entries w as)) = next_addr w + length as \<and>
   fst (copy_entries w as) = [next_addr w ..< next_addr w + length as] \<and>
   (\<forall>a < next_addr w. entries (snd (copy_entries w as)) a = entries w a)"
proof (induction as arbitrary: w)
  case Nil
  then show ?case by simp
next
  case (Cons a as)
  let ?w1 = "snd (new_entry w (entries w a))"
  have n1: "next_addr ?w1 = Suc (next_addr w)"
    and a1: "arrays ?w1 = arrays w" and e1: "events ?w1 = events w"
    and old: "\<And>b. b < next_addr w \<Longrightarrow> entries ?w1 b = entries w b"
    by (simp_all add: new_entry_def)
  have up: "[next_addr w ..< next_addr w + length (a # as)]
              = next_addr w # [Suc (next_addr w) ..< Suc (next_addr w) + length as]"
    by (subst upt_rec) simp
  from Cons.IH [of ?w1]
  have ih: "arrays (snd (copy_entries ?w1 as)) = arrays w"
    "events (snd (copy_entries ?w1 as)) = events w"
    "next_addr (snd (copy_entries ?w1 as)) = next_addr w + length (a # as)"
    "fst (copy_entries ?w1 as) = [Suc (next_addr w) ..< Suc (next_addr w) + length as]"
    "\<And>b. b < next_addr w \<Longrightarrow> entries (snd (copy_entries ?w1 as)) b = entries w b"
    by (simp_all add: n1 a1 e1 old)
  show ?case
    by (simp only: copy_entries_Cons fst_conv snd_conv ih up) (simp add: ih(5))
qed

lemma copy_entries_copies:
  "\<forall>a \<in> set as. a < next_addr w \<Longrightarrow>
   map (entries (snd (copy_entries w as))) (fst (copy_entries w as)) = map (entries w) as"
proof (induction as arbitrary: w)
  case Nil
  then show ?case by simp
next
  case (Cons a as)
  let ?w1 = "snd (new_entry w (entries w a))"
  have n1: "next_addr ?w1 = Suc (next_addr w)"
    and new: "entries ?w1 (next_addr w) = entries w a"
    and old: "\<And>b. b < next_addr w \<Longrightarrow> entries ?w1 b = entries w b"
    by (simp_all add: new_entry_def)
  from Cons.prems have b: "\<forall>x \<in> set as. x < next_addr ?w1"
    by (auto simp: n1)
  have keep: "entries (snd (copy_entries ?w1 as)) (next_addr w) = entries ?w1 (next_addr w)"
    using copy_entries_frame [of ?w1 as] by (simp add: n1)
  have "map (entries ?w1) as = map (entries w) as"
    using Cons.prems by (simp add: old)
  with Cons.IH [OF b] keep new show ?case
    by (simp only: copy_entries_Cons fst_conv snd_conv list.map)
qed


lemma new_Comp_alloc:
  assumes "new_Comp w k = (c, w')"
  shows "cid c = next_addr w"
    and "next_addr w < next_addr w'"
    and "\<exists>arr. events w' (next_addr w) = Some arr \<and> next_addr w < arr \<and> arr < next_addr w' \<and>
               arrays w' arr =
                 [Suc (next_addr w) ..< Suc (next_addr w) +
                    length (filter (\<lambda>a. well_formed_event (entries w a)) (arrays w (k_events k)))] \<and>
               arr = Suc (next_addr w) +
                    length (filter (\<lambda>a. well_formed_event (entries w a)) (arrays w (k_events k)))"
    and "\<And>a. a < next_addr w \<Longrightarrow> arrays w' a = arrays w a \<and> entries w' a = entries w a"
    and "\<And>i. i \<noteq> next_addr w \<Longrightarrow> events w' i = events w i"
proof -
  let ?w0 = "w\<lparr>next_addr := Suc (next_addr w), events := (events w)(next_addr w := None)\<rparr>"
  let ?kept = "filter (\<lambda>a. well_formed_event (entries w a)) (arrays w (k_events k))"
  let ?w1 = "snd (copy_entries ?w0 ?kept)"
  let ?as = "fst (copy_entries ?w0 ?kept)"
  let ?arr = "Suc (next_addr w) + length ?kept"
  have fr: "arrays ?w1 = arrays w" "events ?w1 = (events w)(next_addr w := None)"
    "next_addr ?w1 = ?arr" "?as = [Suc (next_addr w) ..< ?arr]"
    "\<And>a. a < Suc (next_addr w) \<Longrightarrow> entries ?w1 a = entries w a"
    using copy_entries_frame [of ?w0 ?kept] by simp_all
  from assms have "c = fst (new_Comp w k)" and "w' = snd (new_Comp w k)"
    by simp_all
  then have c: "c = (k_definitions k ((Component (next_addr w) None (k_initialState k))\<lparr>template := k_template k\<rparr>))\<lparr>cid := next_addr w\<rparr>"
    and w': "w' = ?w1\<lparr>arrays := (arrays ?w1)(?arr := ?as), next_addr := Suc ?arr,
                      events := (events ?w1)(next_addr w := Some ?arr)\<rparr>"
    by (simp_all add: new_Comp_def Let_def new_array_def case_prod_beta fr(3))
  show "cid c = next_addr w"
    by (simp add: c)
  show "next_addr w < next_addr w'"
    by (simp add: w')
  show "\<exists>arr. events w' (next_addr w) = Some arr \<and> next_addr w < arr \<and> arr < next_addr w' \<and>
          arrays w' arr = [Suc (next_addr w) ..< Suc (next_addr w) + length ?kept] \<and>
          arr = Suc (next_addr w) + length ?kept"
    by (simp add: w' fr(4))
  show "arrays w' a = arrays w a \<and> entries w' a = entries w a" if "a < next_addr w" for a
    using that by (simp add: w' fr)
  show "events w' i = events w i" if "i \<noteq> next_addr w" for i
    using that by (simp add: w' fr)
qed

lemma new_Comp_view:
  assumes "kind_ok w k" and "new_Comp w k = (c, w')" and "events w' (next_addr w) = Some arr"
  shows "events_view w' arr = filter well_formed_event (events_view w (k_events k))"
proof -
  let ?w0 = "w\<lparr>next_addr := Suc (next_addr w), events := (events w)(next_addr w := None)\<rparr>"
  let ?kept = "filter (\<lambda>a. well_formed_event (entries w a)) (arrays w (k_events k))"
  let ?w1 = "snd (copy_entries ?w0 ?kept)"
  let ?as = "fst (copy_entries ?w0 ?kept)"
  let ?arr = "Suc (next_addr w) + length ?kept"
  have fr: "next_addr ?w1 = ?arr"
    using copy_entries_frame [of ?w0 ?kept] by simp
  from assms(2) have "w' = snd (new_Comp w k)"
    by simp
  then have w': "w' = ?w1\<lparr>arrays := (arrays ?w1)(?arr := ?as), next_addr := Suc ?arr,
                      events := (events ?w1)(next_addr w := Some ?arr)\<rparr>"
    by (simp add: new_Comp_def Let_def new_array_def case_prod_beta fr)
  with assms(3) have arr: "arr = ?arr"
    by simp
  from assms(1) have "\<forall>a \<in> set ?kept. a < next_addr ?w0"
    by (auto simp: kind_ok_def)
  then have "map (entries ?w1) ?as = map (entries ?w0) ?kept"
    by (rule copy_entries_copies)
  then have "events_view w' arr = map (entries w) ?kept"
    by (simp add: events_view_def w' arr)
  also have "\<dots> = filter well_formed_event (events_view w (k_events k))"
    by (simp add: events_view_def filter_map comp_def)
  finally show ?thesis .
qed


lemma putEvents_each_world_Cons:
  "snd (snd (putEvents_each w el (a # as))) =
     (if \<not> truthy (cached (entries w a)) \<and> \<not> truthy (selector (entries w a)) \<and>
         \<not> callable (listener (entries w a))
      then w
      else snd (snd (putEvents_each
             (if \<not> truthy (cached (entries w a))
              then w\<lparr>entries := (entries w)(a := (entries w a)\<lparr>cached := JWrapper a\<rparr>)\<rparr>
              else w) el as)))"
  by (simp add: Let_def split: prod.splits)

lemma putEvents_each_frame:
  "arrays (snd (snd (putEvents_each w el as))) = arrays w \<and>
   events (snd (snd (putEvents_each w el as))) = events w \<and>
   next_addr (snd (snd (putEvents_each w el as))) = next_addr w \<and>
   (\<forall>a. a \<notin> set as \<longrightarrow> entries (snd (snd (putEvents_each w el as))) a = entries w a) \<and>
   (\<forall>a. type (entries (snd (snd (putEvents_each w el as))) a) = type (entries w a))"
proof (induction as arbitrary: w)
  case Nil
  then show ?case by simp
next
  case (Cons a as)
  let ?w1 = "w\<lparr>entries := (entries w)(a := (entries w a)\<lparr>cached := JWrapper a\<rparr>)\<rparr>"
  from Cons.IH [of ?w1] Cons.IH [of w] show ?case
    by (simp only: putEvents_each_world_Cons) (auto split: if_splits)
qed

lemma putEvents_frame:
  assumes "events w this = Some arr"
  shows "arrays (snd (snd (putEvents w this el))) = arrays w"
    and "events (snd (snd (putEvents w this el))) = events w"
    and "next_addr (snd (snd (putEvents w this el))) = next_addr w"
    and "\<And>a. a \<notin> set (arrays w arr) \<Longrightarrow> entries (snd (snd (putEvents w this el))) a = entries w a"
  using assms putEvents_each_frame [of w el "arrays w arr"]
  by (simp_all add: putEvents_def)

lemma addEventListener_world:
  assumes "events w (cid c) = Some arr"
  shows "r_world (addEventListener w c ty li sel) =
     (let w3 = w\<lparr>entries := (entries w)(next_addr w :=
                    \<lparr>type = ty, listener = li, selector = sel, cached = JUndefined\<rparr>),
                  next_addr := Suc (next_addr w),
                  arrays := (arrays w)(arr := arrays w arr @ [next_addr w])\<rparr>
      in case element c of
           None \<Rightarrow> w3
         | Some el \<Rightarrow> snd (snd (putEvents w3 (cid c) (ident el))))"
  using assms
  by (simp add: addEventListener_def new_entry_def Let_def split: option.splits prod.splits)

lemma run_op_frame:
  assumes ev: "events w (cid c) = Some arr" and sep: "separate w arr b"
  shows "events (run_op w c op) = events w \<and> separate (run_op w c op) arr b \<and>
         arrays (run_op w c op) b = arrays w b \<and>
         (\<forall>a \<in> set (arrays w b). entries (run_op w c op) a = entries w a)"
proof (cases op)
  case (AddListener ty li sel)
  let ?w3 = "w\<lparr>entries := (entries w)(next_addr w :=
                    \<lparr>type = ty, listener = li, selector = sel, cached = JUndefined\<rparr>),
                  next_addr := Suc (next_addr w),
                  arrays := (arrays w)(arr := arrays w arr @ [next_addr w])\<rparr>"
  have ev3: "events ?w3 (cid c) = Some arr"
    using ev by simp
  have base: "events ?w3 = events w \<and> separate ?w3 arr b \<and> arrays ?w3 b = arrays w b \<and>
              (\<forall>a \<in> set (arrays w b). entries ?w3 a = entries w a)"
    using sep by (auto simp: separate_def)
  show ?thesis
  proof (cases "element c")
    case None
    with base show ?thesis
      by (simp add: AddListener addEventListener_world [OF ev] Let_def)
  next
    case (Some el)
    let ?w4 = "snd (snd (putEvents ?w3 (cid c) (ident el)))"
    have w4: "run_op w c op = ?w4"
      by (simp add: AddListener addEventListener_world [OF ev] Let_def Some)
    note f = putEvents_frame [OF ev3, where el = "ident el"]
    have out: "a \<notin> set (arrays ?w3 arr)" if "a \<in> set (arrays w b)" for a
      using that sep by (auto simp: separate_def)
    have "separate ?w4 arr b"
      using base by (simp add: separate_def f(1,3))
    moreover have "\<forall>a \<in> set (arrays w b). entries ?w4 a = entries w a"
      using base f(4) [OF out] by simp
    ultimately show ?thesis
      using base by (simp add: w4 f(1,2))
  qed
next
  case (RemoveListener ty li sel)
  have sub: "set (splice1 l i) \<subseteq> set l" for l :: "nat list" and i
    by (auto simp: splice1_def dest: in_set_takeD in_set_dropD)
  show ?thesis
  proof (cases "findIndex (\<lambda>a. same_binding ty li sel (entries w a)) (arrays w arr)")
    case None
    with ev sep show ?thesis
      by (simp add: RemoveListener removeEventListener_def)
  next
    case (Some i)
    have w': "run_op w c op = w\<lparr>arrays := (arrays w)(arr := splice1 (arrays w arr) i)\<rparr>"
      using ev Some by (simp add: RemoveListener removeEventListener_def Let_def)
    show ?thesis
      using sep sub [of "arrays w arr" i] by (auto simp: w' separate_def)
  qed
qed

lemma run_ops_frame:
  assumes "events w (cid c) = Some arr" and "separate w arr b"
  shows "events (run_ops w c ops) = events w \<and>
         arrays (run_ops w c ops) b = arrays w b \<and>
         (\<forall>a \<in> set (arrays w b). entries (run_ops w c ops) a = entries w a)"
  using assms
proof (induction ops arbitrary: w)
  case Nil
  then show ?case by simp
next
  case (Cons op ops)
  from run_op_frame [OF Cons.prems, of op]
  have ev: "events (run_op w c op) = events w" and sep: "separate (run_op w c op) arr b"
    and arr: "arrays (run_op w c op) b = arrays w b"
    and ent: "\<forall>a \<in> set (arrays w b). entries (run_op w c op) a = entries w a"
    by simp_all
  from Cons.prems(1) ev have ev': "events (run_op w c op) (cid c) = Some arr"
    by simp
  from Cons.IH [OF ev' sep] ev arr ent show ?case
    by simp
qed

lemma run_ops_view:
  assumes "events w (cid c) = Some arr" and "separate w arr b"
  shows "events (run_ops w c ops) = events w \<and> events_view (run_ops w c ops) b = events_view w b"
  using run_ops_frame [OF assms, of ops] by (simp add: events_view_def)


lemma events_view_cong:
  assumes "arrays w' b = arrays w b" and "\<And>a. a \<in> set (arrays w b) \<Longrightarrow> entries w' a = entries w a"
  shows "events_view w' b = events_view w b"
  using assms by (simp add: events_view_def)

text \<open>
  C9. Two instances made by the same kind each get an \<open>events\<close> array of their own,
  different from each other and from the array of the configuration, with entries
  of their own that hold what the well-formed configured entries hold. Whatever
  calls of \<open>addEventListener\<close> and \<open>removeEventListener\<close> are made on one of
  them, mounted or not, the other one still has the same array with the same
  entries, and the array of the configuration and its entries are as they were.
\<close>

theorem sibling_events_untouched:
  assumes ok: "kind_ok w k" and n1: "new_Comp w k = (c1, w1)" and n2: "new_Comp w1 k = (c2, w2)"
  shows "\<exists>arr1 arr2.
           events w2 (cid c1) = Some arr1 \<and> events w2 (cid c2) = Some arr2 \<and>
           arr1 \<noteq> arr2 \<and> arr1 \<noteq> k_events k \<and> arr2 \<noteq> k_events k \<and>
           set (arrays w2 arr1) \<inter> set (arrays w2 arr2) = {} \<and>
           set (arrays w2 arr1) \<inter> set (arrays w2 (k_events k)) = {} \<and>
           set (arrays w2 arr2) \<inter> set (arrays w2 (k_events k)) = {} \<and>
           events_view w2 arr1 = filter well_formed_event (events_view w (k_events k)) \<and>
           events_view w2 arr2 = filter well_formed_event (events_view w (k_events k)) \<and>
           events_view w2 (k_events k) = events_view w (k_events k) \<and>
           (\<forall>el ops. events (run_ops w2 (c1\<lparr>element := el\<rparr>) ops) (cid c2) = Some arr2 \<and>
                     events_view (run_ops w2 (c1\<lparr>element := el\<rparr>) ops) arr2 = events_view w2 arr2 \<and>
                     events_view (run_ops w2 (c1\<lparr>element := el\<rparr>) ops) (k_events k)
                       = events_view w2 (k_events k)) \<and>
           (\<forall>el ops. events (run_ops w2 (c2\<lparr>element := el\<rparr>) ops) (cid c1) = Some arr1 \<and>
                     events_view (run_ops w2 (c2\<lparr>element := el\<rparr>) ops) arr1 = events_view w2 arr1 \<and>
                     events_view (run_ops w2 (c2\<lparr>element := el\<rparr>) ops) (k_events k)
                       = events_view w2 (k_events k))"
proof -
  let ?k = "k_events k"
  let ?n = "next_addr w" and ?m = "next_addr w1"
  from ok have kn: "?k < ?n" and kel: "\<And>a. a \<in> set (arrays w ?k) \<Longrightarrow> a < ?n"
    by (simp_all add: kind_ok_def)
  note A = new_Comp_alloc [OF n1]
  note B = new_Comp_alloc [OF n2]
  from A(3) obtain arr1 where a1: "events w1 ?n = Some arr1" "?n < arr1" "arr1 < ?m"
    and l1: "arrays w1 arr1 = [Suc ?n ..< arr1]"
    by auto
  from B(3) obtain arr2 where a2: "events w2 ?m = Some arr2" "?m < arr2" "arr2 < next_addr w2"
    and l2: "arrays w2 arr2 = [Suc ?m ..< arr2]"
    by auto
  have nm: "?n < ?m" by (rule A(2))
  have k1: "arrays w1 ?k = arrays w ?k" and ke1: "\<And>a. a \<in> set (arrays w ?k) \<Longrightarrow> entries w1 a = entries w a"
    using A(4) kn kel by simp_all
  have kel1: "\<And>a. a \<in> set (arrays w ?k) \<Longrightarrow> a < ?m"
    using kel nm by (blast intro: less_trans)
  have ok1: "kind_ok w1 k"
    using kn nm kel1 by (simp add: kind_ok_def k1)
  have k2: "arrays w2 ?k = arrays w ?k"
    using B(4) [of ?k] kn nm k1 by simp
  have ke2: "entries w2 a = entries w a" if "a \<in> set (arrays w ?k)" for a
    using B(4) [of a] kel1 [OF that] ke1 [OF that] by simp
  have l1': "arrays w2 arr1 = [Suc ?n ..< arr1]"
    using B(4) [of arr1] a1(3) l1 by simp
  have e1: "\<And>a. a \<in> set (arrays w1 arr1) \<Longrightarrow> entries w2 a = entries w1 a"
    using B(4) a1(3) by (simp add: l1)
  have c1: "cid c1 = ?n" and c2: "cid c2 = ?m"
    by (rule A(1), rule B(1))
  have ev1: "events w2 (cid c1) = Some arr1"
    using B(5) [of ?n] nm a1(1) by (simp add: c1)
  have ev2: "events w2 (cid c2) = Some arr2"
    using a2(1) by (simp add: c2)
  have v1: "events_view w2 arr1 = filter well_formed_event (events_view w ?k)"
    using new_Comp_view [OF ok n1 a1(1)] events_view_cong [of w2 arr1 w1, OF _ e1] l1 l1'
    by simp
  have v2: "events_view w2 arr2 = filter well_formed_event (events_view w ?k)"
    using new_Comp_view [OF ok1 n2 a2(1)] events_view_cong [of w1 ?k w, OF k1 ke1]
    by simp
  have vk: "events_view w2 ?k = events_view w ?k"
    by (rule events_view_cong [OF k2 ke2])
  have s12: "separate w2 arr1 arr2"
    using a1 a2 nm by (auto simp: separate_def l1' l2)
  have s1k: "separate w2 arr1 ?k"
    using a1 a2 nm kn kel by (fastforce simp: separate_def l1' k2)
  have s21: "separate w2 arr2 arr1"
    using a1 a2 nm by (auto simp: separate_def l1' l2)
  have s2k: "separate w2 arr2 ?k"
    using a1 a2 nm kn kel by (fastforce simp: separate_def l2 k2)
  have r1: "events (run_ops w2 (c1\<lparr>element := el\<rparr>) ops) (cid c2) = Some arr2 \<and>
            events_view (run_ops w2 (c1\<lparr>element := el\<rparr>) ops) arr2 = events_view w2 arr2 \<and>
            events_view (run_ops w2 (c1\<lparr>element := el\<rparr>) ops) ?k = events_view w2 ?k" for el ops
  proof -
    have e: "events w2 (cid (c1\<lparr>element := el\<rparr>)) = Some arr1"
      using ev1 by simp
    from run_ops_view [OF e s12, of ops] run_ops_view [OF e s1k, of ops] ev2 show ?thesis
      by simp
  qed
  have r2: "events (run_ops w2 (c2\<lparr>element := el\<rparr>) ops) (cid c1) = Some arr1 \<and>
            events_view (run_ops w2 (c2\<lparr>element := el\<rparr>) ops) arr1 = events_view w2 arr1 \<and>
            events_view (run_ops w2 (c2\<lparr>element := el\<rparr>) ops) ?k = events_view w2 ?k" for el ops
  proof -
    have e: "events w2 (cid (c2\<lparr>element := el\<rparr>)) = Some arr2"
      using ev2 by simp
    from run_ops_view [OF e s21, of ops] run_ops_view [OF e s2k, of ops] ev1 show ?thesis
      by simp
  qed
  have d12: "set (arrays w2 arr1) \<inter> set (arrays w2 arr2) = {}"
    using a1 a2 nm by (auto simp: l1' l2)
  have d1k: "set (arrays w2 arr1) \<inter> set (arrays w2 ?k) = {}"
    using kel by (fastforce simp: l1' k2)
  have d2k: "set (arrays w2 arr2) \<inter> set (arrays w2 ?k) = {}"
    using kel nm by (fastforce simp: l2 k2)
  have ne: "arr1 \<noteq> arr2" "arr1 \<noteq> ?k" "arr2 \<noteq> ?k"
    using a1 a2 nm kn by simp_all
  show ?thesis
    using ev1 ev2 ne d12 d1k d2k v1 v2 vk r1 r2 by blast
qed


lemma demo_kind_events: "k_events demo_kind = 0"
  by (simp add: demo_kind_def createComponent_def demo_config_def)

lemma demo_kind_ok: "kind_ok demo_world demo_kind"
  by (simp add: kind_ok_def demo_kind_events) (simp add: demo_world_def)

lemma demo_config_view:
  "events_view demo_world 0 =
     [\<lparr>type = JStr ''click'', listener = JFun 1, selector = JNull, cached = JUndefined\<rparr>,
      \<lparr>type = JStr [], listener = JFun 2, selector = JNull, cached = JUndefined\<rparr>,
      \<lparr>type = JStr ''change'', listener = JUndefined, selector = JStr ''.x'', cached = JUndefined\<rparr>]"
  by (simp add: events_view_def demo_world_def)

lemma demo_kept:
  "filter well_formed_event (events_view demo_world 0) =
     [\<lparr>type = JStr ''click'', listener = JFun 1, selector = JNull, cached = JUndefined\<rparr>]"
  by (simp add: demo_config_view well_formed_event_def)

theorem sibling_events_untouched_witness:
  "\<exists>arr2.
     events (snd (new_Comp (snd (new_Comp demo_world demo_kind)) demo_kind))
       (cid (fst (new_Comp (snd (new_Comp demo_world demo_kind)) demo_kind))) = Some arr2 \<and>
     events_view
       (run_ops (snd (new_Comp (snd (new_Comp demo_world demo_kind)) demo_kind))
          ((fst (new_Comp demo_world demo_kind))\<lparr>element := None\<rparr>)
          [AddListener (JStr ''keyup'') (JFun 9) JNull, RemoveListener (JStr ''click'') (JFun 1) JNull])
       arr2
     = [\<lparr>type = JStr ''click'', listener = JFun 1, selector = JNull, cached = JUndefined\<rparr>]"
proof -
  let ?c1 = "fst (new_Comp demo_world demo_kind)" and ?w1 = "snd (new_Comp demo_world demo_kind)"
  let ?c2 = "fst (new_Comp ?w1 demo_kind)" and ?w2 = "snd (new_Comp ?w1 demo_kind)"
  have n1: "new_Comp demo_world demo_kind = (?c1, ?w1)" and n2: "new_Comp ?w1 demo_kind = (?c2, ?w2)"
    by simp_all
  from sibling_events_untouched [OF demo_kind_ok n1 n2] obtain arr1 arr2 where
    e2: "events ?w2 (cid ?c2) = Some arr2"
    and v2: "events_view ?w2 arr2 = filter well_formed_event (events_view demo_world (k_events demo_kind))"
    and r: "\<forall>el ops. events (run_ops ?w2 (?c1\<lparr>element := el\<rparr>) ops) (cid ?c2) = Some arr2 \<and>
              events_view (run_ops ?w2 (?c1\<lparr>element := el\<rparr>) ops) arr2 = events_view ?w2 arr2 \<and>
              events_view (run_ops ?w2 (?c1\<lparr>element := el\<rparr>) ops) (k_events demo_kind)
                = events_view ?w2 (k_events demo_kind)"
    by blast
  from r have "events_view (run_ops ?w2 (?c1\<lparr>element := None\<rparr>)
        [AddListener (JStr ''keyup'') (JFun 9) JNull, RemoveListener (JStr ''click'') (JFun 1) JNull]) arr2
      = events_view ?w2 arr2"
    by blast
  with e2 v2 show ?thesis
    by (simp only: demo_kind_events demo_kept) blast
qed


lemma putEvents_each_Cons:
  "putEvents_each w el (a # as) =
     (if \<not> truthy (cached (entries w a)) \<and> \<not> truthy (selector (entries w a)) \<and>
         \<not> callable (listener (entries w a))
      then ([], Some TypeError, w)
      else
        let w1 = (if \<not> truthy (cached (entries w a))
                  then w\<lparr>entries := (entries w)(a := (entries w a)\<lparr>cached := JWrapper a\<rparr>)\<rparr>
                  else w)
        in (AddEventListener el (type (entries w1 a)) (cached (entries w1 a)) #
              fst (putEvents_each w1 el as),
            fst (snd (putEvents_each w1 el as)),
            snd (snd (putEvents_each w1 el as))))"
  by (simp add: Let_def split: prod.splits)

lemma putEvents_each_cached_kept:
  "truthy (cached (entries w b)) \<Longrightarrow> entries (snd (snd (putEvents_each w el as))) b = entries w b"
proof (induction as arbitrary: w)
  case Nil
  then show ?case by simp
next
  case (Cons a as)
  let ?w1 = "w\<lparr>entries := (entries w)(a := (entries w a)\<lparr>cached := JWrapper a\<rparr>)\<rparr>"
  show ?case
  proof (cases "a = b")
    case True
    with Cons.prems Cons.IH [of w] show ?thesis
      by (simp add: putEvents_each_world_Cons del: putEvents_each.simps)
  next
    case False
    with Cons.prems have "truthy (cached (entries ?w1 b))" and "entries ?w1 b = entries w b"
      by simp_all
    with Cons.prems Cons.IH [of ?w1] Cons.IH [of w] show ?thesis
      by (simp add: putEvents_each_world_Cons del: putEvents_each.simps)
  qed
qed

lemma putEvents_each_log:
  "fst (putEvents_each w el as) =
     map (\<lambda>a. AddEventListener el (type (entries (snd (snd (putEvents_each w el as))) a))
                                   (cached (entries (snd (snd (putEvents_each w el as))) a)))
         (take (length (fst (putEvents_each w el as))) as) \<and>
   (fst (snd (putEvents_each w el as)) = None \<longrightarrow> length (fst (putEvents_each w el as)) = length as)"
proof (induction as arbitrary: w)
  case Nil
  then show ?case by simp
next
  case (Cons a as)
  let ?bad = "\<not> truthy (cached (entries w a)) \<and> \<not> truthy (selector (entries w a)) \<and>
              \<not> callable (listener (entries w a))"
  let ?w1 = "if \<not> truthy (cached (entries w a))
             then w\<lparr>entries := (entries w)(a := (entries w a)\<lparr>cached := JWrapper a\<rparr>)\<rparr>
             else w"
  show ?case
  proof (cases ?bad)
    case True
    then show ?thesis
      by (simp add: putEvents_each_Cons)
  next
    case False
    have t: "truthy (cached (entries ?w1 a))"
      by simp
    have keep: "entries (snd (snd (putEvents_each ?w1 el as))) a = entries ?w1 a"
      using t by (rule putEvents_each_cached_kept)
    have eq: "putEvents_each w el (a # as) =
        (AddEventListener el (type (entries ?w1 a)) (cached (entries ?w1 a)) #
              fst (putEvents_each ?w1 el as),
            fst (snd (putEvents_each ?w1 el as)),
            snd (snd (putEvents_each ?w1 el as)))"
      using False by (simp only: putEvents_each_Cons Let_def if_False)
    from Cons.IH [of ?w1]
    have ih1: "map (\<lambda>a. AddEventListener el (type (entries (snd (snd (putEvents_each ?w1 el as))) a))
                                   (cached (entries (snd (snd (putEvents_each ?w1 el as))) a)))
                 (take (length (fst (putEvents_each ?w1 el as))) as) = fst (putEvents_each ?w1 el as)"
      and ih2: "fst (snd (putEvents_each ?w1 el as)) = None \<longrightarrow>
                length (fst (putEvents_each ?w1 el as)) = length as"
      by simp_all
    show ?thesis
      by (simp only: eq fst_conv snd_conv length_Cons take_Suc_Cons list.map keep ih1)
         (simp add: ih2)
  qed
qed

lemma putEvents_log_types:
  assumes "events w this = Some arr"
  shows "map attached_type (fst (putEvents w this el)) =
           map Some (take (length (fst (putEvents w this el))) (map type (events_view w arr))) \<and>
         (fst (snd (putEvents w this el)) = None \<longrightarrow>
            length (fst (putEvents w this el)) = length (events_view w arr))"
proof -
  let ?p = "putEvents_each w el (arrays w arr)"
  have p: "putEvents w this el = ?p"
    using assms by (simp add: putEvents_def)
  have ty: "\<And>a. type (entries (snd (snd ?p)) a) = type (entries w a)"
    using putEvents_each_frame [of w el "arrays w arr"] by simp
  have "map attached_type (fst ?p) =
          map (\<lambda>a. Some (type (entries w a))) (take (length (fst ?p)) (arrays w arr))"
    by (subst conjunct1 [OF putEvents_each_log [of w el "arrays w arr"]]) (simp add: comp_def ty)
  also have "\<dots> = map Some (take (length (fst ?p)) (map type (events_view w arr)))"
    by (simp add: events_view_def take_map comp_def)
  finally show ?thesis
    using putEvents_each_log [of w el "arrays w arr"] by (simp add: p events_view_def)
qed

lemma createComponent_kind:
  assumes "config_ok w0 cfg" and "createComponent w0 cfg = (k, w)"
  shows "kind_ok w k \<and> events_view w (k_events k) = configured_events w0 cfg"
proof (cases "cfg_events cfg")
  case None
  with assms(2) have "k_events k = next_addr w0"
    and "w = w0\<lparr>arrays := (arrays w0)(next_addr w0 := []), next_addr := Suc (next_addr w0)\<rparr>"
    by (auto simp: createComponent_def new_array_def)
  with None show ?thesis
    by (simp add: kind_ok_def events_view_def configured_events_def)
next
  case (Some arr)
  with assms(2) have "k_events k = arr" and "w = w0"
    by (auto simp: createComponent_def)
  with Some assms(1) show ?thesis
    by (simp add: kind_ok_def config_ok_def configured_events_def)
qed

text \<open>
  C10. The kind made by \<open>createComponent\<close> refers to the configured \<open>events\<close> list,
  and a new instance stores copies of exactly the configured entries whose \<open>type\<close>
  and \<open>listener\<close> are both truthy, in their order. \<open>putEvents\<close> on the instance
  calls \<open>addEventListener\<close> for these entries only, one after the other: on all of
  them when it raises nothing, on the first ones otherwise.
\<close>

theorem malformed_events_dropped:
  "(config_ok w0 cfg \<and> createComponent w0 cfg = (k, w) \<longrightarrow>
      kind_ok w k \<and> events_view w (k_events k) = configured_events w0 cfg) \<and>
   (kind_ok w k \<and> new_Comp w k = (c, w1) \<longrightarrow>
      (\<exists>arr. events w1 (cid c) = Some arr \<and>
         events_view w1 arr = filter well_formed_event (events_view w (k_events k)) \<and>
         (\<forall>el. map attached_type (fst (putEvents w1 (cid c) el)) =
                 map Some (take (length (fst (putEvents w1 (cid c) el)))
                            (map type (filter well_formed_event (events_view w (k_events k))))) \<and>
               (fst (snd (putEvents w1 (cid c) el)) = None \<longrightarrow>
                  length (fst (putEvents w1 (cid c) el)) =
                  length (filter well_formed_event (events_view w (k_events k)))))))"
proof -
  have first: "kind_ok w k \<and> events_view w (k_events k) = configured_events w0 cfg"
    if "config_ok w0 cfg \<and> createComponent w0 cfg = (k, w)"
    using that createComponent_kind [of w0 cfg k w] by simp
  have second: "\<exists>arr. events w1 (cid c) = Some arr \<and>
         events_view w1 arr = filter well_formed_event (events_view w (k_events k)) \<and>
         (\<forall>el. map attached_type (fst (putEvents w1 (cid c) el)) =
                 map Some (take (length (fst (putEvents w1 (cid c) el)))
                            (map type (filter well_formed_event (events_view w (k_events k))))) \<and>
               (fst (snd (putEvents w1 (cid c) el)) = None \<longrightarrow>
                  length (fst (putEvents w1 (cid c) el)) =
                  length (filter well_formed_event (events_view w (k_events k)))))"
    if h: "kind_ok w k \<and> new_Comp w k = (c, w1)"
  proof -
    from h have ok: "kind_ok w k" and n: "new_Comp w k = (c, w1)"
      by simp_all
    from new_Comp_alloc(3) [OF n] obtain arr where a: "events w1 (next_addr w) = Some arr"
      by blast
    have c: "cid c = next_addr w"
      by (rule new_Comp_alloc(1) [OF n])
    have v: "events_view w1 arr = filter well_formed_event (events_view w (k_events k))"
      by (rule new_Comp_view [OF ok n a])
    from a have a': "events w1 (cid c) = Some arr"
      by (simp add: c)
    show ?thesis
      using a' v putEvents_log_types [OF a'] by (intro exI [of _ arr]) simp
  qed
  from first second show ?thesis
    by blast
qed

theorem malformed_events_dropped_witness:
  "kind_ok demo_world demo_kind \<and>
   (\<exists>arr. events (snd (new_Comp demo_world demo_kind)) (cid (fst (new_Comp demo_world demo_kind))) = Some arr \<and>
      events_view (snd (new_Comp demo_world demo_kind)) arr =
        [\<lparr>type = JStr ''click'', listener = JFun 1, selector = JNull, cached = JUndefined\<rparr>])"
proof -
  have cfg: "config_ok demo_world demo_config \<and>
             createComponent demo_world demo_config = (demo_kind, demo_world)"
    by (simp add: config_ok_def demo_config_def createComponent_def demo_kind_def)
       (simp add: demo_world_def)
  have n: "new_Comp demo_world demo_kind =
             (fst (new_Comp demo_world demo_kind), snd (new_Comp demo_world demo_kind))"
    by simp
  from cfg malformed_events_dropped [of demo_world demo_config demo_kind demo_world]
  have ok: "kind_ok demo_world demo_kind"
    by blast
  from ok n malformed_events_dropped [of demo_world demo_config demo_kind demo_world
       "fst (new_Comp demo_world demo_kind)" "snd (new_Comp demo_world demo_kind)"]
  obtain arr where
    "events (snd (new_Comp demo_world demo_kind)) (cid (fst (new_Comp demo_world demo_kind))) = Some arr"
    "events_view (snd (new_Comp demo_world demo_kind)) arr =
       filter well_formed_event (events_view demo_world (k_events demo_kind))"
    by blast
  with ok show ?thesis
    by (simp only: demo_kind_events demo_kept) blast
qed

end
